theory Spec2Isabelle
  imports Complex_Main "HOL-Library.Word" "HOL-Library.Multiset" "HOL-Library.Sublist"
begin

section \<open>The catalog's data model (src/types/product.ts)\<close>

text \<open>
  A JavaScript string is its sequence of UTF-16 code units, so \<open>s.length\<close> is the
  length of the list. A JavaScript number is modelled by a rational: the catalog reads
  its prices from JSON and its range from a slider, so every number is a finite double,
  and the code only compares numbers and takes the sign of a difference, which doubles
  do exactly.
\<close>

type_synonym jsstring = "16 word list"

type_synonym number = rat

text \<open>An ASCII literal as a JavaScript string.\<close>

definition str :: "string \<Rightarrow> jsstring" where
  "str s = map of_char s"

text \<open>\<open>Product.gender\<close> is \<open>"men" | "women" | "unisex"\<close>.\<close>

datatype ProductGender = Men | Women | Unisex

text \<open>
  \<open>Gender\<close> is \<open>"all" | "men" | "women" | "unisex"\<close>: \<open>AllGenders\<close> is \<open>"all"\<close>, and
  \<open>Only g\<close> is the string that \<open>Product.gender\<close> shares with it.
\<close>

datatype Gender = AllGenders | Only ProductGender

datatype SortOption = NameAsc | NameDesc | PriceAsc | PriceDesc | BrandAsc

text \<open>
  The fields keep their names; \<open>id\<close>, \<open>size\<close>, \<open>type\<close>, and the \<open>brand\<close> and \<open>gender\<close>
  that \<open>FilterState\<close> has too, carry the suffix \<open>_p\<close>. A nullable field is an option.
\<close>

record Product =
  id_p :: jsstring
  raw_name :: jsstring
  brand_p :: jsstring
  name :: jsstring
  size_p :: "jsstring option"
  type_p :: "jsstring option"
  gender_p :: ProductGender
  price :: "number option"
  upc :: jsstring
  is_gift_set :: bool
  is_tester :: bool
  image_url :: "jsstring option"
  has_image :: bool

text \<open>\<open>FilterState.sort\<close> is \<open>sort_f\<close> here; \<open>priceRange\<close> is the pair \<open>[lo, hi]\<close>.\<close>

record FilterState =
  gender :: Gender
  search :: jsstring
  brand :: "jsstring option"
  priceRange :: "number \<times> number"
  types :: "jsstring list"
  sizes :: "jsstring list"
  sort_f :: SortOption

section \<open>The hook (src/hooks/useProducts.ts)\<close>

definition DEFAULT_FILTERS :: FilterState where
  "DEFAULT_FILTERS =
     \<lparr> gender = AllGenders, search = [], brand = None, priceRange = (0, 1000),
       types = [], sizes = [], sort_f = BrandAsc \<rparr>"

subsection \<open>The language's operators\<close>

text \<open>
  \<open>Array.prototype.sort(comparefn)\<close>. The language requires the sort to be stable, and
  for a consistent comparator a stable sort has one result: the elements in the order of
  the comparator, those that compare equal in their input order. Insertion from the
  right computes it: \<open>x\<close>, which stood before every element of the sorted rest, stays in
  front of \<open>y\<close> unless \<open>comparefn(x, y) > 0\<close>. For an inconsistent comparator the
  language leaves the order to the engine, and this is one such order.
\<close>

fun insert_sorted :: "('a \<Rightarrow> 'a \<Rightarrow> 'n::{zero,ord}) \<Rightarrow> 'a \<Rightarrow> 'a list \<Rightarrow> 'a list" where
  "insert_sorted comparefn x [] = [x]"
| "insert_sorted comparefn x (y # ys) =
     (if comparefn x y \<le> 0 then x # y # ys else y # insert_sorted comparefn x ys)"

definition array_sort :: "('a \<Rightarrow> 'a \<Rightarrow> 'n::{zero,ord}) \<Rightarrow> 'a list \<Rightarrow> 'a list" where
  "array_sort comparefn xs = foldr (insert_sorted comparefn) xs []"

text \<open>\<open>a ?? d\<close>: the default when the value is null.\<close>

definition nullish :: "'a option \<Rightarrow> 'a \<Rightarrow> 'a" where
  "nullish a d = (case a of None \<Rightarrow> d | Some v \<Rightarrow> v)"

text \<open>\<open>x || y\<close> on numbers: the first operand unless it is zero.\<close>

definition or_else :: "int \<Rightarrow> int \<Rightarrow> int" where
  "or_else x y = (if x \<noteq> 0 then x else y)"

text \<open>
  The truth value of a nullable string, as in \<open>if (filters.brand)\<close>: null and the
  empty string are false. The type and size steps write the same test out, since
  \<open>p.type && filters.types.includes(p.type)\<close> reads the string only when it is there.
\<close>

definition truthy :: "jsstring option \<Rightarrow> bool" where
  "truthy s = (case s of None \<Rightarrow> False | Some v \<Rightarrow> v \<noteq> [])"

subsection \<open>sortProducts\<close>

text \<open>
  \<open>String.prototype.localeCompare\<close> belongs to the platform and depends on its locale,
  so it is the parameter \<open>localeCompare\<close>: negative, zero or positive. Every value of
  \<open>SortOption\<close> has its case, so the \<open>default\<close> branch of the \<open>switch\<close> has none.
\<close>

definition sortProducts ::
  "(jsstring \<Rightarrow> jsstring \<Rightarrow> int) \<Rightarrow> Product list \<Rightarrow> SortOption \<Rightarrow> Product list" where
  "sortProducts localeCompare products sortOption =
     (let sorted = products in
      case sortOption of
        NameAsc \<Rightarrow> array_sort (\<lambda>a b. localeCompare (name a) (name b)) sorted
      | NameDesc \<Rightarrow> array_sort (\<lambda>a b. localeCompare (name b) (name a)) sorted
      | PriceAsc \<Rightarrow> array_sort (\<lambda>a b. nullish (price a) 9999 - nullish (price b) 9999) sorted
      | PriceDesc \<Rightarrow> array_sort (\<lambda>a b. nullish (price b) 0 - nullish (price a) 0) sorted
      | BrandAsc \<Rightarrow>
          array_sort (\<lambda>a b. or_else (localeCompare (brand_p a) (brand_p b))
                                     (localeCompare (name a) (name b))) sorted)"

subsection \<open>sortProducts on the heap\<close>

text \<open>
  An array is an object: \<open>[...products]\<close> allocates a new one, and \<open>sort\<close> reorders the
  array it is called on and returns that same array. To say what \<open>sortProducts\<close> does to
  the array it is given, the heap is explicit here: a reference is a number, the heap
  maps the references in use to the arrays' elements, and \<open>next_ref\<close> is the reference
  that the next allocation returns. An operation on a reference that holds no array gives
  \<open>None\<close>.
\<close>

record heap =
  arrays :: "nat \<Rightarrow> Product list option"
  next_ref :: nat

definition spread :: "heap \<Rightarrow> nat \<Rightarrow> (heap \<times> nat) option" where
  "spread h xs =
     (case arrays h xs of
        None \<Rightarrow> None
      | Some elems \<Rightarrow>
          Some (h\<lparr>arrays := (arrays h)(next_ref h \<mapsto> elems), next_ref := Suc (next_ref h)\<rparr>,
                next_ref h))"

definition sort_in_place ::
  "(Product \<Rightarrow> Product \<Rightarrow> 'n::{zero,ord}) \<Rightarrow> heap \<Rightarrow> nat \<Rightarrow> (heap \<times> nat) option" where
  "sort_in_place comparefn h xs =
     (case arrays h xs of
        None \<Rightarrow> None
      | Some elems \<Rightarrow> Some (h\<lparr>arrays := (arrays h)(xs \<mapsto> array_sort comparefn elems)\<rparr>, xs))"

definition sortProducts_heap ::
  "(jsstring \<Rightarrow> jsstring \<Rightarrow> int) \<Rightarrow> heap \<Rightarrow> nat \<Rightarrow> SortOption \<Rightarrow> (heap \<times> nat) option" where
  "sortProducts_heap localeCompare h products sortOption =
     (case spread h products of
        None \<Rightarrow> None
      | Some (h1, sorted_copy) \<Rightarrow>
          (case sortOption of
             NameAsc \<Rightarrow> sort_in_place (\<lambda>a b. localeCompare (name a) (name b)) h1 sorted_copy
           | NameDesc \<Rightarrow> sort_in_place (\<lambda>a b. localeCompare (name b) (name a)) h1 sorted_copy
           | PriceAsc \<Rightarrow>
               sort_in_place (\<lambda>a b. nullish (price a) 9999 - nullish (price b) 9999) h1 sorted_copy
           | PriceDesc \<Rightarrow>
               sort_in_place (\<lambda>a b. nullish (price b) 0 - nullish (price a) 0) h1 sorted_copy
           | BrandAsc \<Rightarrow>
               sort_in_place (\<lambda>a b. or_else (localeCompare (brand_p a) (brand_p b))
                                             (localeCompare (name a) (name b))) h1 sorted_copy))"

subsection \<open>The filtering pipeline\<close>

text \<open>
  The seven numbered steps of \<open>filteredProducts\<close>, each under the name of its comment.
  The Fuse.js index is a library's: \<open>fuse allProducts text\<close> stands for the items of
  \<open>new Fuse(allProducts, ...).search(text)\<close>.
\<close>

definition genderFilter :: "FilterState \<Rightarrow> Product list \<Rightarrow> Product list" where
  "genderFilter filters results =
     (if gender filters \<noteq> AllGenders
      then filter (\<lambda>p. Only (gender_p p) = gender filters) results
      else results)"

definition fuzzySearch ::
  "(Product list \<Rightarrow> jsstring \<Rightarrow> Product list) \<Rightarrow> Product list \<Rightarrow> jsstring \<Rightarrow>
   Product list \<Rightarrow> Product list" where
  "fuzzySearch fuse allProducts debouncedSearch results =
     (if length debouncedSearch \<ge> 2
      then (let searchResults = fuse allProducts debouncedSearch;
                searchIds = set (map id_p searchResults)
            in filter (\<lambda>p. id_p p \<in> searchIds) results)
      else results)"

definition brandFilter :: "FilterState \<Rightarrow> Product list \<Rightarrow> Product list" where
  "brandFilter filters results =
     (if truthy (brand filters)
      then filter (\<lambda>p. Some (brand_p p) = brand filters) results
      else results)"

definition typeFilter :: "FilterState \<Rightarrow> Product list \<Rightarrow> Product list" where
  "typeFilter filters results =
     (if length (types filters) > 0
      then filter (\<lambda>p. case type_p p of
                         None \<Rightarrow> False
                       | Some t \<Rightarrow> t \<noteq> [] \<and> t \<in> set (types filters)) results
      else results)"

definition sizeFilter :: "FilterState \<Rightarrow> Product list \<Rightarrow> Product list" where
  "sizeFilter filters results =
     (if length (sizes filters) > 0
      then filter (\<lambda>p. case size_p p of
                         None \<Rightarrow> False
                       | Some s \<Rightarrow> s \<noteq> [] \<and> s \<in> set (sizes filters)) results
      else results)"

definition priceRangeFilter :: "FilterState \<Rightarrow> Product list \<Rightarrow> Product list" where
  "priceRangeFilter filters results =
     filter (\<lambda>p. case price p of
                   None \<Rightarrow> True
                 | Some v \<Rightarrow> v \<ge> fst (priceRange filters) \<and> v \<le> snd (priceRange filters))
            results"

text \<open>The working set after steps 1 to 5, which the price step receives.\<close>

definition beforePrice ::
  "(Product list \<Rightarrow> jsstring \<Rightarrow> Product list) \<Rightarrow> Product list \<Rightarrow> FilterState \<Rightarrow> jsstring \<Rightarrow>
   Product list" where
  "beforePrice fuse allProducts filters debouncedSearch =
     (let results = allProducts;
          results = genderFilter filters results;
          results = fuzzySearch fuse allProducts debouncedSearch results;
          results = brandFilter filters results;
          results = typeFilter filters results;
          results = sizeFilter filters results
      in results)"

definition filteredProducts ::
  "(jsstring \<Rightarrow> jsstring \<Rightarrow> int) \<Rightarrow> (Product list \<Rightarrow> jsstring \<Rightarrow> Product list) \<Rightarrow>
   Product list \<Rightarrow> FilterState \<Rightarrow> jsstring \<Rightarrow> Product list" where
  "filteredProducts localeCompare fuse allProducts filters debouncedSearch =
     (let results = beforePrice fuse allProducts filters debouncedSearch;
          results = priceRangeFilter filters results;
          results = sortProducts localeCompare results (sort_f filters)
      in results)"

subsection \<open>The mutation operations\<close>

text \<open>Each is the updater that the operation hands to \<open>setFilters\<close>, from \<open>prev\<close> to the next state.\<close>

definition setGender :: "Gender \<Rightarrow> FilterState \<Rightarrow> FilterState" where
  "setGender g prev = prev\<lparr>gender := g\<rparr>"

definition setSearch :: "jsstring \<Rightarrow> FilterState \<Rightarrow> FilterState" where
  "setSearch s prev = prev\<lparr>search := s\<rparr>"

definition setBrand :: "jsstring option \<Rightarrow> FilterState \<Rightarrow> FilterState" where
  "setBrand b prev = prev\<lparr>brand := b\<rparr>"

definition setPriceRange :: "number \<times> number \<Rightarrow> FilterState \<Rightarrow> FilterState" where
  "setPriceRange r prev = prev\<lparr>priceRange := r\<rparr>"

definition toggleType :: "jsstring \<Rightarrow> FilterState \<Rightarrow> FilterState" where
  "toggleType t prev =
     prev\<lparr>types := (if t \<in> set (types prev)
                      then filter (\<lambda>u. u \<noteq> t) (types prev)
                      else types prev @ [t])\<rparr>"

definition toggleSize :: "jsstring \<Rightarrow> FilterState \<Rightarrow> FilterState" where
  "toggleSize s prev =
     prev\<lparr>sizes := (if s \<in> set (sizes prev)
                      then filter (\<lambda>u. u \<noteq> s) (sizes prev)
                      else sizes prev @ [s])\<rparr>"

definition setSort :: "SortOption \<Rightarrow> FilterState \<Rightarrow> FilterState" where
  "setSort so prev = prev\<lparr>sort_f := so\<rparr>"

definition clearFilters :: "FilterState \<Rightarrow> FilterState" where
  "clearFilters prev = DEFAULT_FILTERS"

text \<open>
  A call of one of the operations, and the state after a sequence of calls on a new
  session, whose state is \<open>DEFAULT_FILTERS\<close>.
\<close>

datatype Call =
    SetGender Gender
  | SetSearch jsstring
  | SetBrand "jsstring option"
  | SetPriceRange "number \<times> number"
  | ToggleType jsstring
  | ToggleSize jsstring
  | SetSort SortOption
  | ClearFilters

fun perform :: "FilterState \<Rightarrow> Call \<Rightarrow> FilterState" where
  "perform prev (SetGender g) = setGender g prev"
| "perform prev (SetSearch s) = setSearch s prev"
| "perform prev (SetBrand b) = setBrand b prev"
| "perform prev (SetPriceRange r) = setPriceRange r prev"
| "perform prev (ToggleType t) = toggleType t prev"
| "perform prev (ToggleSize s) = toggleSize s prev"
| "perform prev (SetSort so) = setSort so prev"
| "perform prev ClearFilters = clearFilters prev"

definition filtersAfter :: "Call list \<Rightarrow> FilterState" where
  "filtersAfter calls = foldl perform DEFAULT_FILTERS calls"

subsection \<open>activeFilterCount\<close>

definition activeFilterCount :: "FilterState \<Rightarrow> nat" where
  "activeFilterCount filters =
     (let count = 0;
          count = (if gender filters \<noteq> AllGenders then count + 1 else count);
          count = (if length (search filters) \<ge> 2 then count + 1 else count);
          count = (if truthy (brand filters) then count + 1 else count);
          count = (if length (types filters) > 0 then count + length (types filters) else count);
          count = (if length (sizes filters) > 0 then count + length (sizes filters) else count);
          count = (if fst (priceRange filters) > 0 \<or> snd (priceRange filters) < 1000
                   then count + 1 else count)
      in count)"

section \<open>The debounce gate (src/hooks/useDebounce.ts, not among the sources)\<close>

text \<open>
  Modelled from the spec: \<open>useDebounce\<close>, whose file is missing, and with it the session
  that \<open>useProducts\<close> builds around it. \<open>useProducts\<close> calls
  \<open>useDebounce(filters.search, 200)\<close> and hands the result to the pipeline as
  \<open>debouncedSearch\<close>; the pipeline is memoized on a dependency array that holds
  \<open>debouncedSearch\<close> and not \<open>filters.search\<close>. The specification says of the gate:
  "when search text changes, the value propagated to the evaluator is updated only after a
  fixed quiescence window (200 ms) with no further changes; if the user keeps typing, the
  window resets on every keystroke", and "destruction of the catalog session must cancel
  any pending debounce timer". Time is counted in whole milliseconds.

  A session, as far as the search text is concerned, is the filter state, the debounced
  text, the pending timer (the milliseconds left and the text it will commit) and the
  number of times the pipeline has been recomputed on account of the search text.
\<close>

record Session =
  filters_s :: FilterState
  debounced :: jsstring
  timer :: "(nat \<times> jsstring) option"
  recomputations :: nat

definition mount :: Session where
  "mount = \<lparr> filters_s = DEFAULT_FILTERS, debounced = search DEFAULT_FILTERS, timer = None,
             recomputations = 0 \<rparr>"

datatype Event = CallSetSearch jsstring | Elapse nat | Teardown

text \<open>
  Modelled from the spec: the events of a session. A call of \<open>setSearch\<close> that changes
  the text replaces the pending timer by one of 200 ms for the new text. When the time
  left has elapsed the timer commits its text, and the memoized pipeline is recomputed if
  that text differs from the debounced one, as its dependency array says. Teardown
  cancels the timer.
\<close>

fun step :: "Session \<Rightarrow> Event \<Rightarrow> Session" where
  "step s (CallSetSearch v) =
     s\<lparr> filters_s := setSearch v (filters_s s),
        timer := (if v \<noteq> search (filters_s s) then Some (200, v) else timer s) \<rparr>"
| "step s (Elapse d) =
     (case timer s of
        None \<Rightarrow> s
      | Some (left, v) \<Rightarrow>
          if left \<le> d
          then s\<lparr> debounced := v, timer := None,
                  recomputations := recomputations s + (if v \<noteq> debounced s then 1 else 0) \<rparr>
          else s\<lparr> timer := Some (left - d, v) \<rparr>)"
| "step s Teardown = s\<lparr> timer := None \<rparr>"

definition run :: "Session \<Rightarrow> Event list \<Rightarrow> Session" where
  "run s events = foldl step s events"

text \<open>
  Typing: each text is set by a call of \<open>setSearch\<close>, and the given number of
  milliseconds passes before the next. \<open>changing prev vs\<close> says that each text of \<open>vs\<close>
  differs from the one before it, the first from \<open>prev\<close>.
\<close>

fun typing :: "(jsstring \<times> nat) list \<Rightarrow> Event list" where
  "typing [] = []"
| "typing ((v, d) # rest) = CallSetSearch v # Elapse d # typing rest"

fun changing :: "jsstring \<Rightarrow> jsstring list \<Rightarrow> bool" where
  "changing prev [] = True"
| "changing prev (v # vs) = (v \<noteq> prev \<and> changing v vs)"

section \<open>The properties that the statements use\<close>

text \<open>
  The language requires \<open>localeCompare\<close> to be a consistent comparator: the sign of
  \<open>a.localeCompare(b)\<close> is opposite to that of \<open>b.localeCompare(a)\<close>, and the order it
  gives is transitive.
\<close>

definition consistent :: "(jsstring \<Rightarrow> jsstring \<Rightarrow> int) \<Rightarrow> bool" where
  "consistent lc \<longleftrightarrow>
     (\<forall>a b. (lc a b < 0) = (lc b a > 0)) \<and>
     (\<forall>a b c. lc a b \<le> 0 \<longrightarrow> lc b c \<le> 0 \<longrightarrow> lc a c \<le> 0)"

text \<open>
  Every product without a price stands after every product with one: no product with a
  price follows a product without.
\<close>

definition nullsLast :: "Product list \<Rightarrow> bool" where
  "nullsLast out = sorted_wrt (\<lambda>a b. price a = None \<longrightarrow> price b = None) out"

text \<open>
  The count of active filters in the specification's words:
  \<open>1*(gender\<noteq>all) + 1*(search valid) + 1*(brand\<noteq>null) + |types| + |sizes| +
  1*(priceRange\<noteq>default)\<close>, to be compared with \<open>activeFilterCount\<close>.
\<close>

definition activeFilterCount_spec :: "FilterState \<Rightarrow> nat" where
  "activeFilterCount_spec filters =
     (if gender filters \<noteq> AllGenders then 1 else 0) +
     (if length (search filters) \<ge> 2 then 1 else 0) +
     (if brand filters \<noteq> None then 1 else 0) +
     length (types filters) + length (sizes filters) +
     (if priceRange filters \<noteq> (0, 1000) then 1 else 0)"

section \<open>Comparators, indexes and products for the examples\<close>

text \<open>The comparison of two strings by their code units, as \<open>a < b\<close> compares them.\<close>

fun codeUnitCompare :: "jsstring \<Rightarrow> jsstring \<Rightarrow> int" where
  "codeUnitCompare [] [] = 0"
| "codeUnitCompare [] (y # ys) = -1"
| "codeUnitCompare (x # xs) [] = 1"
| "codeUnitCompare (x # xs) (y # ys) =
     (if x < y then -1 else if y < x then 1 else codeUnitCompare xs ys)"

text \<open>
  The language also requires \<open>localeCompare\<close> to honour canonical equivalence, and to
  return 0 on two distinguishable strings that are canonically equivalent, such as
  U+00E9 (the letter e with acute accent) and U+0065 U+0301 (the letter e, then the
  combining acute accent). \<open>compose\<close> is the part of canonical composition that
  concerns this pair, and \<open>canonCompare\<close> compares the composed strings.
\<close>

fun compose :: "jsstring \<Rightarrow> jsstring" where
  "compose (x # y # rest) =
     (if x = 0x0065 \<and> y = 0x0301 then 0x00E9 # compose rest else x # compose (y # rest))"
| "compose xs = xs"

definition canonCompare :: "jsstring \<Rightarrow> jsstring \<Rightarrow> int" where
  "canonCompare a b = codeUnitCompare (compose a) (compose b)"

text \<open>An index that matches the products whose name is the text.\<close>

definition exactName :: "Product list \<Rightarrow> jsstring \<Rightarrow> Product list" where
  "exactName allProducts text = filter (\<lambda>p. name p = text) allProducts"

text \<open>The repository of the specification's end-to-end scenario, and three more products.\<close>

definition rose :: Product where
  "rose = \<lparr> id_p = str ''1'', raw_name = str ''A ROSE'', brand_p = str ''A'', name = str ''Rose'',
            size_p = None, type_p = None, gender_p = Women, price = Some 50, upc = [],
            is_gift_set = False, is_tester = False, image_url = None, has_image = False \<rparr>"

definition oud :: Product where
  "oud = \<lparr> id_p = str ''2'', raw_name = str ''B OUD'', brand_p = str ''B'', name = str ''Oud'',
           size_p = None, type_p = None, gender_p = Men, price = None, upc = [],
           is_gift_set = False, is_tester = False, image_url = None, has_image = False \<rparr>"

definition sample :: Product where
  "sample = rose\<lparr> id_p := str ''3'', name := str ''Sample'', price := Some 0 \<rparr>"

definition grand :: Product where
  "grand = rose\<lparr> id_p := str ''4'', name := str ''Grand'', price := Some 10000 \<rparr>"

definition cafe_composed :: Product where
  "cafe_composed = rose\<lparr> id_p := str ''5'', name := [0x0043, 0x0061, 0x0066, 0x00E9] \<rparr>"

definition cafe_decomposed :: Product where
  "cafe_decomposed =
     rose\<lparr> id_p := str ''6'', name := [0x0043, 0x0061, 0x0066, 0x0065, 0x0301] \<rparr>"

text \<open>A filter state with a brand, a type, a size and a price range chosen.\<close>

definition chosen :: FilterState where
  "chosen = DEFAULT_FILTERS\<lparr> brand := Some (str ''A''), types := [str ''EDP''],
              sizes := [str ''100ml''], priceRange := (10, 500) \<rparr>"

section \<open>Sorting\<close>

lemma mset_insert_sorted: "mset (insert_sorted c x xs) = add_mset x (mset xs)"
  by (induction xs) auto

lemma mset_array_sort: "mset (array_sort c xs) = mset xs"
  by (induction xs) (auto simp: array_sort_def mset_insert_sorted)

lemma set_insert_sorted: "set (insert_sorted c x xs) = insert x (set xs)"
  by (induction xs) auto

lemma set_array_sort: "set (array_sort c xs) = set xs"
  using mset_array_sort [of c xs] by (metis set_mset_mset)

lemma mset_sortProducts: "mset (sortProducts lc ps so) = mset ps"
  by (cases so) (simp_all add: sortProducts_def mset_array_sort)

lemma set_sortProducts: "set (sortProducts lc ps so) = set ps"
  using mset_sortProducts [of lc ps so] by (metis set_mset_mset)

text \<open>Under a total and transitive comparator the result is in the comparator's order.\<close>

lemma sorted_insert_sorted:
  assumes tot: "\<And>a b. c a b \<le> 0 \<or> c b a \<le> 0"
    and trans: "\<And>a b d. c a b \<le> 0 \<Longrightarrow> c b d \<le> 0 \<Longrightarrow> c a d \<le> 0"
  shows "sorted_wrt (\<lambda>a b. c a b \<le> 0) xs \<Longrightarrow>
    sorted_wrt (\<lambda>a b. c a b \<le> 0) (insert_sorted c x xs)"
proof (induction xs)
  case Nil
  then show ?case by simp
next
  case (Cons y ys)
  show ?case
  proof (cases "c x y \<le> 0")
    case True
    have "\<forall>z\<in>set ys. c x z \<le> 0"
    proof
      fix z assume z: "z \<in> set ys"
      with Cons.prems have "c y z \<le> 0" by simp
      with True show "c x z \<le> 0" by (rule trans)
    qed
    with True Cons.prems show ?thesis by simp
  next
    case False
    then have yx: "c y x \<le> 0" using tot [of x y] by simp
    have ih: "sorted_wrt (\<lambda>a b. c a b \<le> 0) (insert_sorted c x ys)"
      using Cons.prems by (intro Cons.IH) simp
    have "\<forall>z\<in>set (insert_sorted c x ys). c y z \<le> 0"
      using yx Cons.prems by (simp add: set_insert_sorted)
    with False ih show ?thesis by simp
  qed
qed

lemma sorted_array_sort:
  assumes tot: "\<And>a b. c a b \<le> 0 \<or> c b a \<le> 0"
    and trans: "\<And>a b d. c a b \<le> 0 \<Longrightarrow> c b d \<le> 0 \<Longrightarrow> c a d \<le> 0"
  shows "sorted_wrt (\<lambda>a b. c a b \<le> 0) (array_sort c xs)"
proof (induction xs)
  case Nil
  then show ?case by (simp add: array_sort_def)
next
  case (Cons x xs)
  have "sorted_wrt (\<lambda>a b. c a b \<le> 0) (insert_sorted c x (array_sort c xs))"
    using tot trans Cons.IH by (rule sorted_insert_sorted)
  then show ?case by (simp add: array_sort_def)
qed

text \<open>Two lists in the same antisymmetric order with the same elements are the same list.\<close>

lemma sorted_wrt_unique:
  assumes "sorted_wrt R xs" "sorted_wrt R ys" "mset xs = mset ys"
    and anti: "\<And>a b. a \<in> set xs \<Longrightarrow> b \<in> set xs \<Longrightarrow> R a b \<Longrightarrow> R b a \<Longrightarrow> a = b"
  shows "xs = ys"
  using assms
proof (induction xs arbitrary: ys)
  case Nil
  then show ?case by simp
next
  case (Cons x xs)
  then obtain y ys' where ys: "ys = y # ys'" by (cases ys) auto
  have sets: "set (x # xs) = set (y # ys')"
    using Cons.prems(3) ys by (metis set_mset_mset)
  have "x = y"
  proof (rule ccontr)
    assume ne: "x \<noteq> y"
    then have mem: "x \<in> set ys'" "y \<in> set xs" using sets by auto
    then have "R y x" "R x y" using Cons.prems(1,2) ys by auto
    then show False using Cons.prems(4) [of x y] ne mem by simp
  qed
  moreover have "xs = ys'"
  proof (rule Cons.IH)
    show "sorted_wrt R xs" using Cons.prems(1) by simp
    show "sorted_wrt R ys'" using Cons.prems(2) ys by simp
    show "mset xs = mset ys'" using Cons.prems(3) ys \<open>x = y\<close> by simp
    show "\<And>a b. a \<in> set xs \<Longrightarrow> b \<in> set xs \<Longrightarrow> R a b \<Longrightarrow> R b a \<Longrightarrow> a = b"
      using Cons.prems(4) by simp
  qed
  ultimately show ?case using ys by simp
qed

subsection \<open>The comparators of the examples are consistent\<close>

lemma codeUnitCompare_flip: "codeUnitCompare b a = - codeUnitCompare a b"
  by (induction a b rule: codeUnitCompare.induct) auto

lemma codeUnitCompare_trans:
  "codeUnitCompare a b \<le> 0 \<Longrightarrow> codeUnitCompare b c \<le> 0 \<Longrightarrow> codeUnitCompare a c \<le> 0"
proof (induction a b arbitrary: c rule: codeUnitCompare.induct)
  case 1
  then show ?case by simp
next
  case (2 y ys)
  then show ?case by (cases c) auto
next
  case (3 x xs)
  then show ?case by simp
next
  case (4 x xs y ys)
  then show ?case
    by (cases c) (auto split: if_splits)
qed

lemma consistent_codeUnitCompare: "consistent codeUnitCompare"
  unfolding consistent_def
proof (intro conjI allI impI)
  fix a b show "(codeUnitCompare a b < 0) = (0 < codeUnitCompare b a)"
    using codeUnitCompare_flip [of b a] by simp
next
  fix a b c assume "codeUnitCompare a b \<le> 0" "codeUnitCompare b c \<le> 0"
  then show "codeUnitCompare a c \<le> 0" by (rule codeUnitCompare_trans)
qed

lemma consistent_canonCompare: "consistent canonCompare"
  using consistent_codeUnitCompare unfolding consistent_def canonCompare_def by blast

lemma consistent_total: "consistent lc \<Longrightarrow> lc a b \<le> 0 \<or> lc b a \<le> 0"
  unfolding consistent_def by (metis not_less order_less_imp_le)

lemma consistent_trans: "consistent lc \<Longrightarrow> lc a b \<le> 0 \<Longrightarrow> lc b c \<le> 0 \<Longrightarrow> lc a c \<le> 0"
  unfolding consistent_def by blast

lemma consistent_tie: "consistent lc \<Longrightarrow> lc a b \<le> 0 \<Longrightarrow> lc b a \<le> 0 \<Longrightarrow> lc a b = 0"
  unfolding consistent_def by (metis not_less order_le_less)

section \<open>The pipeline\<close>

subsection \<open>What each step reads\<close>

lemma genderFilter_setPriceRange [simp]:
  "genderFilter (setPriceRange r filters) = genderFilter filters"
  by (rule ext) (simp add: genderFilter_def setPriceRange_def)

lemma brandFilter_setPriceRange [simp]:
  "brandFilter (setPriceRange r filters) = brandFilter filters"
  by (rule ext) (simp add: brandFilter_def setPriceRange_def)

lemma typeFilter_setPriceRange [simp]:
  "typeFilter (setPriceRange r filters) = typeFilter filters"
  by (rule ext) (simp add: typeFilter_def setPriceRange_def cong: option.case_cong)

lemma sizeFilter_setPriceRange [simp]:
  "sizeFilter (setPriceRange r filters) = sizeFilter filters"
  by (rule ext) (simp add: sizeFilter_def setPriceRange_def cong: option.case_cong)

lemma beforePrice_setPriceRange:
  "beforePrice fuse allProducts (setPriceRange r filters) ds =
   beforePrice fuse allProducts filters ds"
  by (simp add: beforePrice_def)

lemma genderFilter_setSearch [simp]: "genderFilter (setSearch v filters) = genderFilter filters"
  by (rule ext) (simp add: genderFilter_def setSearch_def)

lemma brandFilter_setSearch [simp]: "brandFilter (setSearch v filters) = brandFilter filters"
  by (rule ext) (simp add: brandFilter_def setSearch_def)

lemma typeFilter_setSearch [simp]: "typeFilter (setSearch v filters) = typeFilter filters"
  by (rule ext) (simp add: typeFilter_def setSearch_def cong: option.case_cong)

lemma sizeFilter_setSearch [simp]: "sizeFilter (setSearch v filters) = sizeFilter filters"
  by (rule ext) (simp add: sizeFilter_def setSearch_def cong: option.case_cong)

lemma priceRangeFilter_setSearch [simp]:
  "priceRangeFilter (setSearch v filters) = priceRangeFilter filters"
  by (rule ext) (simp add: priceRangeFilter_def setSearch_def cong: option.case_cong)

lemma filteredProducts_setSearch:
  "filteredProducts lc fuse allProducts (setSearch v filters) ds =
   filteredProducts lc fuse allProducts filters ds"
  by (simp add: filteredProducts_def beforePrice_def) (simp add: setSearch_def)

subsection \<open>What each step keeps\<close>

lemma in_priceRangeFilter:
  "p \<in> set (priceRangeFilter filters results) \<longleftrightarrow>
     p \<in> set results \<and>
     (price p = None \<or>
      (\<exists>v. price p = Some v \<and> fst (priceRange filters) \<le> v \<and> v \<le> snd (priceRange filters)))"
  by (cases "price p") (simp_all add: priceRangeFilter_def)

lemma set_filteredProducts:
  "set (filteredProducts lc fuse allProducts filters ds) =
     set (priceRangeFilter filters (beforePrice fuse allProducts filters ds))"
  by (simp add: filteredProducts_def set_sortProducts)

lemma mset_filteredProducts:
  "mset (filteredProducts lc fuse allProducts filters ds) =
     mset (priceRangeFilter filters (beforePrice fuse allProducts filters ds))"
  by (simp add: filteredProducts_def mset_sortProducts)

lemma fuzzySearch_short: "length ds < 2 \<Longrightarrow> fuzzySearch fuse allProducts ds results = results"
  by (simp add: fuzzySearch_def)

lemma in_fuzzySearch_long:
  "2 \<le> length ds \<Longrightarrow>
   p \<in> set (fuzzySearch fuse allProducts ds results) \<longleftrightarrow>
     p \<in> set results \<and> id_p p \<in> set (map id_p (fuse allProducts ds))"
  by (simp add: fuzzySearch_def Let_def)

lemma subseq_genderFilter: "subseq (genderFilter filters results) results"
  by (simp add: genderFilter_def)

lemma subseq_fuzzySearch: "subseq (fuzzySearch fuse allProducts ds results) results"
  by (simp add: fuzzySearch_def Let_def)

lemma subseq_brandFilter: "subseq (brandFilter filters results) results"
  by (simp add: brandFilter_def)

lemma subseq_typeFilter: "subseq (typeFilter filters results) results"
  by (simp add: typeFilter_def)

lemma subseq_sizeFilter: "subseq (sizeFilter filters results) results"
  by (simp add: sizeFilter_def)

lemma subseq_priceRangeFilter: "subseq (priceRangeFilter filters results) results"
  by (simp add: priceRangeFilter_def)

lemma subseq_afterSearch:
  "subseq (beforePrice fuse allProducts filters ds)
     (fuzzySearch fuse allProducts ds (genderFilter filters allProducts))"
  unfolding beforePrice_def Let_def
  by (meson subseq_brandFilter subseq_typeFilter subseq_sizeFilter subseq_order.trans)

lemma subseq_beforePrice: "subseq (beforePrice fuse allProducts filters ds) allProducts"
  by (meson subseq_afterSearch subseq_fuzzySearch subseq_genderFilter subseq_order.trans)

lemma subseq_narrowed:
  "subseq (priceRangeFilter filters (beforePrice fuse allProducts filters ds)) allProducts"
  by (meson subseq_priceRangeFilter subseq_beforePrice subseq_order.trans)

lemma subseq_mset: "subseq xs ys \<Longrightarrow> mset xs \<subseteq># mset ys"
proof (induction rule: list_emb.induct)
  case (list_emb_Nil ys)
  then show ?case by simp
next
  case (list_emb_Cons xs ys y)
  have "mset ys \<subseteq># mset (y # ys)" by simp
  with list_emb_Cons.IH show ?case by (rule subset_mset.order_trans)
next
  case (list_emb_Cons2 x y xs ys)
  then show ?case by simp
qed

lemma subseq_set:
  assumes "subseq xs ys" and "x \<in> set xs"
  shows "x \<in> set ys"
proof -
  have "set_mset (mset xs) \<subseteq> set_mset (mset ys)"
    using assms(1) by (intro set_mset_mono subseq_mset)
  then show ?thesis using assms(2) by auto
qed

subsection \<open>The pipeline on the repository of the end-to-end scenario\<close>

lemma beforePrice_scenario:
  "beforePrice exactName [rose, oud] DEFAULT_FILTERS [] = [rose, oud]"
  by (simp add: beforePrice_def genderFilter_def fuzzySearch_def brandFilter_def typeFilter_def
      sizeFilter_def truthy_def DEFAULT_FILTERS_def)

lemma exactName_Rose: "exactName [rose, oud] (str ''Rose'') = [rose]"
  by (simp add: exactName_def rose_def oud_def str_def)

lemma beforePrice_scenario_Rose:
  "beforePrice exactName [rose, oud] DEFAULT_FILTERS (str ''Rose'') = [rose]"
  by (simp add: beforePrice_def genderFilter_def fuzzySearch_def brandFilter_def typeFilter_def
      sizeFilter_def truthy_def DEFAULT_FILTERS_def exactName_Rose Let_def)
    (simp add: rose_def oud_def str_def)

lemma sort_f_default: "sort_f DEFAULT_FILTERS = BrandAsc"
  by (simp add: DEFAULT_FILTERS_def)

lemma brand_asc_single: "sortProducts lc [p] BrandAsc = [p]"
  by (simp add: sortProducts_def array_sort_def)

lemma priceRangeFilter_default_rose:
  "priceRangeFilter DEFAULT_FILTERS [rose] = [rose]"
  by (simp add: priceRangeFilter_def DEFAULT_FILTERS_def rose_def)

text \<open>
  The three end-to-end scenarios of the specification, with the comparison by code units
  for \<open>localeCompare\<close>: the default state gives \<open>rose\<close> before \<open>oud\<close>, brand A before
  brand B; the gender men leaves \<open>oud\<close>; the price range 0 to 40 leaves \<open>oud\<close>, which
  has no price.
\<close>

lemma scenario_default:
  "filteredProducts codeUnitCompare exactName [oud, rose] DEFAULT_FILTERS [] = [rose, oud]"
  by (simp add: filteredProducts_def beforePrice_def genderFilter_def fuzzySearch_def
      brandFilter_def typeFilter_def sizeFilter_def priceRangeFilter_def truthy_def
      DEFAULT_FILTERS_def sortProducts_def array_sort_def or_else_def oud_def rose_def str_def)

lemma scenario_men:
  "filteredProducts codeUnitCompare exactName [rose, oud] (setGender (Only Men) DEFAULT_FILTERS) []
     = [oud]"
  by (simp add: filteredProducts_def beforePrice_def genderFilter_def fuzzySearch_def
      brandFilter_def typeFilter_def sizeFilter_def priceRangeFilter_def truthy_def setGender_def
      DEFAULT_FILTERS_def sortProducts_def array_sort_def or_else_def oud_def rose_def str_def)

lemma scenario_price:
  "filteredProducts codeUnitCompare exactName [rose, oud] (setPriceRange (0, 40) DEFAULT_FILTERS) []
     = [oud]"
  by (simp add: filteredProducts_def beforePrice_def genderFilter_def fuzzySearch_def
      brandFilter_def typeFilter_def sizeFilter_def priceRangeFilter_def truthy_def
      setPriceRange_def DEFAULT_FILTERS_def sortProducts_def array_sort_def or_else_def oud_def
      rose_def str_def)

section \<open>The price sorts\<close>

lemma sorted_price_asc:
  "sorted_wrt (\<lambda>a b. nullish (price a) 9999 \<le> nullish (price b) (9999::rat))
     (sortProducts lc ps PriceAsc)"
proof -
  have "sorted_wrt (\<lambda>a b. nullish (price a) 9999 - nullish (price b) (9999::rat) \<le> 0)
          (array_sort (\<lambda>a b. nullish (price a) 9999 - nullish (price b) (9999::rat)) ps)"
    by (rule sorted_array_sort) auto
  then show ?thesis by (simp add: sortProducts_def)
qed

lemma sorted_price_desc:
  "sorted_wrt (\<lambda>a b. nullish (price b) 0 \<le> nullish (price a) (0::rat))
     (sortProducts lc ps PriceDesc)"
proof -
  have "sorted_wrt (\<lambda>a b. nullish (price b) 0 - nullish (price a) (0::rat) \<le> 0)
          (array_sort (\<lambda>a b. nullish (price b) 0 - nullish (price a) (0::rat)) ps)"
    by (rule sorted_array_sort) auto
  then show ?thesis by (simp add: sortProducts_def)
qed

text \<open>
  The price sorts do not call \<open>localeCompare\<close>, and under the default state with the
  empty search text the pipeline does not call the index.
\<close>

lemma price_desc_oud_sample:
  "sortProducts lc [oud, sample] PriceDesc = [oud, sample]"
  by (simp add: sortProducts_def array_sort_def nullish_def oud_def sample_def rose_def)

lemma price_asc_oud_grand:
  "sortProducts lc [oud, grand] PriceAsc = [oud, grand]"
  by (simp add: sortProducts_def array_sort_def nullish_def oud_def grand_def rose_def)

lemma pipeline_price_desc_oud_sample:
  "filteredProducts lc fuse [oud, sample] (setSort PriceDesc DEFAULT_FILTERS) [] = [oud, sample]"
  by (simp add: filteredProducts_def beforePrice_def genderFilter_def fuzzySearch_def
      brandFilter_def typeFilter_def sizeFilter_def priceRangeFilter_def truthy_def setSort_def
      DEFAULT_FILTERS_def sortProducts_def array_sort_def nullish_def oud_def sample_def rose_def)

lemma prices_in_range:
  assumes "p \<in> set (priceRangeFilter filters (beforePrice fuse allProducts filters ds))"
    and "price p = Some v"
  shows "fst (priceRange filters) \<le> v \<and> v \<le> snd (priceRange filters)"
  using assms by (simp add: in_priceRangeFilter)

text \<open>
  C1, as the code has it. \<open>price-asc\<close> sorts a product without a price as if it cost
  9999, and \<open>price-desc\<close> as if it cost 0. So \<open>price-asc\<close> places every product without
  a price after every product with one when all the prices of the list are below 9999,
  and \<open>price-desc\<close> does when all the prices of the list are above 0. In the pipeline,
  where the price step comes first, \<open>price-asc\<close> does so for every repository when the
  price range has \<open>hi < 9999\<close>, as the default one has, and \<open>price-desc\<close> does when it
  has \<open>lo > 0\<close>.
\<close>

theorem price_sorts_nulls_last:
  "((\<forall>p\<in>set ps. \<forall>v. price p = Some v \<longrightarrow> v < 9999) \<longrightarrow>
      nullsLast (sortProducts lc ps PriceAsc)) \<and>
   ((\<forall>p\<in>set ps. \<forall>v. price p = Some v \<longrightarrow> 0 < v) \<longrightarrow>
      nullsLast (sortProducts lc ps PriceDesc)) \<and>
   (sort_f filters = PriceAsc \<longrightarrow> snd (priceRange filters) < 9999 \<longrightarrow>
      nullsLast (filteredProducts lc fuse allProducts filters ds)) \<and>
   (sort_f filters = PriceDesc \<longrightarrow> 0 < fst (priceRange filters) \<longrightarrow>
      nullsLast (filteredProducts lc fuse allProducts filters ds))"
proof -
  have asc: "nullsLast (sortProducts lc qs PriceAsc)"
    if below: "\<forall>p\<in>set qs. \<forall>v. price p = Some v \<longrightarrow> v < 9999" for qs
    unfolding nullsLast_def
  proof (rule sorted_wrt_mono_rel [OF _ sorted_price_asc])
    fix a b
    assume b: "b \<in> set (sortProducts lc qs PriceAsc)"
      and le: "nullish (price a) 9999 \<le> nullish (price b) (9999::rat)"
    show "price a = None \<longrightarrow> price b = None"
    proof
      assume "price a = None"
      with le have "9999 \<le> nullish (price b) (9999::rat)" by (simp add: nullish_def)
      moreover have "b \<in> set qs" using b by (simp add: set_sortProducts)
      ultimately show "price b = None"
        using below by (cases "price b") (auto simp: nullish_def)
    qed
  qed
  have desc: "nullsLast (sortProducts lc qs PriceDesc)"
    if above: "\<forall>p\<in>set qs. \<forall>v. price p = Some v \<longrightarrow> 0 < v" for qs
    unfolding nullsLast_def
  proof (rule sorted_wrt_mono_rel [OF _ sorted_price_desc])
    fix a b
    assume b: "b \<in> set (sortProducts lc qs PriceDesc)"
      and le: "nullish (price b) 0 \<le> nullish (price a) (0::rat)"
    show "price a = None \<longrightarrow> price b = None"
    proof
      assume "price a = None"
      with le have "nullish (price b) (0::rat) \<le> 0" by (simp add: nullish_def)
      moreover have "b \<in> set qs" using b by (simp add: set_sortProducts)
      ultimately show "price b = None"
        using above by (cases "price b") (auto simp: nullish_def)
    qed
  qed
  let ?kept = "priceRangeFilter filters (beforePrice fuse allProducts filters ds)"
  have out: "filteredProducts lc fuse allProducts filters ds = sortProducts lc ?kept (sort_f filters)"
    by (simp add: filteredProducts_def)
  have pipe_asc: "nullsLast (filteredProducts lc fuse allProducts filters ds)"
    if "sort_f filters = PriceAsc" and hi: "snd (priceRange filters) < 9999"
  proof -
    have "\<forall>p\<in>set ?kept. \<forall>v. price p = Some v \<longrightarrow> v < 9999"
      using prices_in_range [of _ filters fuse allProducts ds] hi by fastforce
    then have "nullsLast (sortProducts lc ?kept PriceAsc)" by (rule asc)
    then show ?thesis using that(1) by (simp add: out)
  qed
  have pipe_desc: "nullsLast (filteredProducts lc fuse allProducts filters ds)"
    if "sort_f filters = PriceDesc" and lo: "0 < fst (priceRange filters)"
  proof -
    have "\<forall>p\<in>set ?kept. \<forall>v. price p = Some v \<longrightarrow> 0 < v"
      using prices_in_range [of _ filters fuse allProducts ds] lo by fastforce
    then have "nullsLast (sortProducts lc ?kept PriceDesc)" by (rule desc)
    then show ?thesis using that(1) by (simp add: out)
  qed
  from asc [of ps] desc [of ps] pipe_asc pipe_desc show ?thesis by blast
qed

text \<open>
  The theorem at the list of \<open>oud\<close>, which has no price, and \<open>rose\<close>, which costs 50:
  both sorts place \<open>oud\<close> last, and so does the pipeline under the default price range
  and \<open>price-asc\<close>.
\<close>

theorem price_sorts_nulls_last_witness:
  "nullsLast (sortProducts codeUnitCompare [oud, rose] PriceAsc) \<and>
   nullsLast (sortProducts codeUnitCompare [oud, rose] PriceDesc) \<and>
   nullsLast (filteredProducts codeUnitCompare exactName [oud, rose]
                (setSort PriceAsc DEFAULT_FILTERS) []) \<and>
   sortProducts codeUnitCompare [oud, rose] PriceAsc = [rose, oud] \<and>
   sortProducts codeUnitCompare [oud, rose] PriceDesc = [rose, oud]"
proof -
  have below: "\<forall>p\<in>set [oud, rose]. \<forall>v. price p = Some v \<longrightarrow> v < 9999"
    by (simp add: oud_def rose_def)
  have above: "\<forall>p\<in>set [oud, rose]. \<forall>v. price p = Some v \<longrightarrow> 0 < v"
    by (simp add: oud_def rose_def)
  have so: "sort_f (setSort PriceAsc DEFAULT_FILTERS) = PriceAsc"
    and hi: "snd (priceRange (setSort PriceAsc DEFAULT_FILTERS)) < 9999"
    by (simp_all add: setSort_def DEFAULT_FILTERS_def)
  have asc: "sortProducts codeUnitCompare [oud, rose] PriceAsc = [rose, oud]"
    by (simp add: sortProducts_def array_sort_def nullish_def oud_def rose_def)
  have desc: "sortProducts codeUnitCompare [oud, rose] PriceDesc = [rose, oud]"
    by (simp add: sortProducts_def array_sort_def nullish_def oud_def rose_def)
  from price_sorts_nulls_last [of "[oud, rose]" codeUnitCompare
      "setSort PriceAsc DEFAULT_FILTERS" exactName "[oud, rose]" "[]"] below above so hi
  have "nullsLast (sortProducts codeUnitCompare [oud, rose] PriceAsc)"
    and "nullsLast (sortProducts codeUnitCompare [oud, rose] PriceDesc)"
    and "nullsLast (filteredProducts codeUnitCompare exactName [oud, rose]
                (setSort PriceAsc DEFAULT_FILTERS) [])"
    by blast+
  with asc desc show ?thesis by (intro conjI)
qed

text \<open>
  C1 as the specification states it, for every product list, fails. A product that
  costs 0 compares equal to one without a price under \<open>price-desc\<close>, so the stable sort
  leaves \<open>sample\<close> behind \<open>oud\<close>; a product that costs 10000 sorts behind one without a
  price under \<open>price-asc\<close>. The first happens in the pipeline under the default price
  range, which keeps a price of 0.
\<close>

theorem price_sorts_counterexample:
  "\<not> nullsLast (sortProducts codeUnitCompare [oud, sample] PriceDesc) \<and>
   \<not> nullsLast (sortProducts codeUnitCompare [oud, grand] PriceAsc) \<and>
   \<not> nullsLast (filteredProducts codeUnitCompare exactName [oud, sample]
                   (setSort PriceDesc DEFAULT_FILTERS) [])"
  unfolding price_desc_oud_sample price_asc_oud_grand pipeline_price_desc_oud_sample
  by (simp add: nullsLast_def oud_def sample_def grand_def rose_def)

section \<open>The count of active filters\<close>

text \<open>
  C2, as the code has it. For every filter state, \<open>activeFilterCount\<close> is
  \<open>1*(gender \<noteq> all) + 1*(search length \<ge> 2) + 1*(brand neither null nor empty) + |types| +
  |sizes| + 1*(lo > 0 or hi < 1000)\<close>. It is the count of the specification for every
  filter state whose brand is not the empty string and whose price range lies within the
  default one, \<open>0 \<le> lo\<close> and \<open>hi \<le> 1000\<close>.
\<close>

theorem activeFilterCount_formula:
  "activeFilterCount filters =
     (if gender filters \<noteq> AllGenders then 1 else 0) +
     (if length (search filters) \<ge> 2 then 1 else 0) +
     (if brand filters \<noteq> None \<and> brand filters \<noteq> Some [] then 1 else 0) +
     length (types filters) + length (sizes filters) +
     (if fst (priceRange filters) > 0 \<or> snd (priceRange filters) < 1000 then 1 else 0) \<and>
   (brand filters \<noteq> Some [] \<longrightarrow> 0 \<le> fst (priceRange filters) \<longrightarrow>
    snd (priceRange filters) \<le> 1000 \<longrightarrow>
      activeFilterCount filters = activeFilterCount_spec filters)"
proof
  show "activeFilterCount filters =
     (if gender filters \<noteq> AllGenders then 1 else 0) +
     (if length (search filters) \<ge> 2 then 1 else 0) +
     (if brand filters \<noteq> None \<and> brand filters \<noteq> Some [] then 1 else 0) +
     length (types filters) + length (sizes filters) +
     (if fst (priceRange filters) > 0 \<or> snd (priceRange filters) < 1000 then 1 else 0)"
    by (cases "brand filters") (simp_all add: activeFilterCount_def truthy_def Let_def)
  show "brand filters \<noteq> Some [] \<longrightarrow> 0 \<le> fst (priceRange filters) \<longrightarrow>
    snd (priceRange filters) \<le> 1000 \<longrightarrow>
      activeFilterCount filters = activeFilterCount_spec filters"
    by (cases "brand filters"; cases "priceRange filters")
      (auto simp add: activeFilterCount_def activeFilterCount_spec_def truthy_def Let_def)
qed

text \<open>
  The theorem at the state with gender men, the search text "ro", two types, one size and
  the price range 10 to 500: the count is 6, as the specification's.
\<close>

theorem activeFilterCount_formula_witness:
  "activeFilterCount
     \<lparr> gender = Only Men, search = str ''ro'', brand = None, priceRange = (10, 500),
       types = [str ''EDP'', str ''EDT''], sizes = [str ''100ml''], sort_f = BrandAsc \<rparr> = 6 \<and>
   activeFilterCount_spec
     \<lparr> gender = Only Men, search = str ''ro'', brand = None, priceRange = (10, 500),
       types = [str ''EDP'', str ''EDT''], sizes = [str ''100ml''], sort_f = BrandAsc \<rparr> = 6"
  using activeFilterCount_formula [of
      "\<lparr> gender = Only Men, search = str ''ro'', brand = None, priceRange = (10, 500),
         types = [str ''EDP'', str ''EDT''], sizes = [str ''100ml''], sort_f = BrandAsc \<rparr>"]
  by (simp add: str_def)

text \<open>
  C2 as the specification states it fails. The price range 0 to 2000 is not the default
  one, and the empty string is a brand that is not null; the code counts neither, since
  it counts the price range when \<open>lo > 0\<close> or \<open>hi < 1000\<close> and the brand when it is
  truthy.
\<close>

theorem activeFilterCount_counterexample:
  "activeFilterCount (setPriceRange (0, 2000) DEFAULT_FILTERS) = 0 \<and>
   activeFilterCount_spec (setPriceRange (0, 2000) DEFAULT_FILTERS) = 1 \<and>
   activeFilterCount (setBrand (Some []) DEFAULT_FILTERS) = 0 \<and>
   activeFilterCount_spec (setBrand (Some []) DEFAULT_FILTERS) = 1"
  by (simp add: activeFilterCount_def activeFilterCount_spec_def setPriceRange_def setBrand_def
      DEFAULT_FILTERS_def truthy_def)

section \<open>The price step\<close>

text \<open>
  C3. For every product and every price range \<open>[lo, hi]\<close>, the price step keeps the
  product if and only if its price is null or \<open>lo \<le> price \<le> hi\<close>; so does the pipeline,
  of the products that reach the price step; and a product with a null price that reaches
  the price step is in the output for every price range.
\<close>

theorem price_predicate:
  "(p \<in> set (priceRangeFilter (setPriceRange (lo, hi) filters) results) \<longleftrightarrow>
      p \<in> set results \<and> (price p = None \<or> (\<exists>v. price p = Some v \<and> lo \<le> v \<and> v \<le> hi))) \<and>
   (p \<in> set (filteredProducts lc fuse allProducts (setPriceRange (lo, hi) filters) ds) \<longleftrightarrow>
      p \<in> set (beforePrice fuse allProducts filters ds) \<and>
      (price p = None \<or> (\<exists>v. price p = Some v \<and> lo \<le> v \<and> v \<le> hi))) \<and>
   (price p = None \<longrightarrow> p \<in> set (beforePrice fuse allProducts filters ds) \<longrightarrow>
      p \<in> set (filteredProducts lc fuse allProducts (setPriceRange (lo, hi) filters) ds))"
proof -
  have r: "priceRange (setPriceRange (lo, hi) filters) = (lo, hi)"
    by (simp add: setPriceRange_def)
  show ?thesis
    by (simp add: set_filteredProducts in_priceRangeFilter beforePrice_setPriceRange r)
qed

text \<open>
  The theorem at the specification's scenario, the price range 0 to 40: \<open>oud\<close>, which
  has no price, is kept, and \<open>rose\<close>, which costs 50, is not.
\<close>

theorem price_predicate_witness:
  "oud \<in> set (filteredProducts codeUnitCompare exactName [rose, oud]
                 (setPriceRange (0, 40) DEFAULT_FILTERS) []) \<and>
   rose \<notin> set (filteredProducts codeUnitCompare exactName [rose, oud]
                  (setPriceRange (0, 40) DEFAULT_FILTERS) [])"
proof -
  have "oud \<in> set (filteredProducts codeUnitCompare exactName [rose, oud]
                 (setPriceRange (0, 40) DEFAULT_FILTERS) [])"
    using price_predicate [of oud 0 40 DEFAULT_FILTERS "[]" codeUnitCompare exactName
        "[rose, oud]" "[]"]
    by (simp add: beforePrice_scenario) (simp add: oud_def)
  moreover have "rose \<notin> set (filteredProducts codeUnitCompare exactName [rose, oud]
                 (setPriceRange (0, 40) DEFAULT_FILTERS) [])"
    using price_predicate [of rose 0 40 DEFAULT_FILTERS "[]" codeUnitCompare exactName
        "[rose, oud]" "[]"]
    by (simp add: beforePrice_scenario) (simp add: rose_def)
  ultimately show ?thesis by simp
qed

section \<open>The search step\<close>

lemma filteredProducts_in_search:
  assumes "2 \<le> length ds" and "p \<in> set (filteredProducts lc fuse allProducts filters ds)"
  shows "id_p p \<in> set (map id_p (fuse allProducts ds))"
proof -
  have "p \<in> set (beforePrice fuse allProducts filters ds)"
    using assms(2) by (simp add: set_filteredProducts in_priceRangeFilter)
  with subseq_afterSearch
  have "p \<in> set (fuzzySearch fuse allProducts ds (genderFilter filters allProducts))"
    by (rule subseq_set)
  then show ?thesis using assms(1) by (simp add: in_fuzzySearch_long)
qed

lemma beforePrice_short:
  "length ds < 2 \<Longrightarrow> length (ds' :: jsstring) < 2 \<Longrightarrow>
   beforePrice fuse allProducts filters ds = beforePrice fuse' allProducts filters ds'"
  by (simp add: beforePrice_def fuzzySearch_short)

text \<open>
  C4. For every repository, every index and every debounced search text: if the text has
  length at least 2, the id of every product in the output is among the ids of the
  index's matches for the text; if the text is shorter, the search step returns its
  input, and the output is the same for every index and every other text shorter than 2.
\<close>

theorem search_step:
  "(2 \<le> length ds \<longrightarrow>
      (\<forall>p\<in>set (filteredProducts lc fuse allProducts filters ds).
         id_p p \<in> set (map id_p (fuse allProducts ds)))) \<and>
   (length ds < 2 \<longrightarrow>
      fuzzySearch fuse allProducts ds results = results \<and>
      (\<forall>ds' fuse'. length ds' < 2 \<longrightarrow>
         filteredProducts lc fuse allProducts filters ds =
         filteredProducts lc fuse' allProducts filters ds'))"
proof (intro conjI impI ballI allI)
  fix p
  assume "2 \<le> length ds" "p \<in> set (filteredProducts lc fuse allProducts filters ds)"
  then show "id_p p \<in> set (map id_p (fuse allProducts ds))"
    by (rule filteredProducts_in_search)
next
  assume "length ds < 2"
  then show "fuzzySearch fuse allProducts ds results = results"
    by (rule fuzzySearch_short)
next
  fix ds' :: jsstring and fuse'
  assume "length ds < 2" "length ds' < 2"
  then have "beforePrice fuse allProducts filters ds = beforePrice fuse' allProducts filters ds'"
    by (rule beforePrice_short)
  then show "filteredProducts lc fuse allProducts filters ds =
         filteredProducts lc fuse' allProducts filters ds'"
    by (simp add: filteredProducts_def)
qed

text \<open>
  The theorem at the repository of the scenario and the index that matches a product by
  its name: the text "Rose" leaves \<open>rose\<close>, whose id the index returns, and the text "R"
  leaves what the empty text leaves.
\<close>

theorem search_step_witness:
  "filteredProducts codeUnitCompare exactName [rose, oud] DEFAULT_FILTERS (str ''Rose'') = [rose] \<and>
   id_p rose \<in> set (map id_p (exactName [rose, oud] (str ''Rose''))) \<and>
   fuzzySearch exactName [rose, oud] (str ''R'') [rose, oud] = [rose, oud] \<and>
   filteredProducts codeUnitCompare exactName [rose, oud] DEFAULT_FILTERS (str ''R'') =
     filteredProducts codeUnitCompare exactName [rose, oud] DEFAULT_FILTERS []"
proof -
  have out: "filteredProducts codeUnitCompare exactName [rose, oud] DEFAULT_FILTERS (str ''Rose'')
      = [rose]"
    by (simp add: filteredProducts_def beforePrice_scenario_Rose priceRangeFilter_default_rose
        sort_f_default brand_asc_single)
  have long: "2 \<le> length (str ''Rose'')" and short: "length (str ''R'') < 2"
    by (simp_all add: str_def)
  note at_Rose = search_step [of "str ''Rose''" codeUnitCompare exactName "[rose, oud]"
      DEFAULT_FILTERS "[]"]
  have "\<forall>p\<in>set (filteredProducts codeUnitCompare exactName [rose, oud] DEFAULT_FILTERS
      (str ''Rose'')). id_p p \<in> set (map id_p (exactName [rose, oud] (str ''Rose'')))"
    using conjunct1 [OF at_Rose] long by (rule mp)
  then have a: "id_p rose \<in> set (map id_p (exactName [rose, oud] (str ''Rose'')))"
    unfolding out by simp
  note at_R = search_step [of "str ''R''" codeUnitCompare exactName "[rose, oud]"
      DEFAULT_FILTERS "[rose, oud]"]
  have bc: "fuzzySearch exactName [rose, oud] (str ''R'') [rose, oud] = [rose, oud] \<and>
      (\<forall>ds' fuse'. length ds' < 2 \<longrightarrow>
         filteredProducts codeUnitCompare exactName [rose, oud] DEFAULT_FILTERS (str ''R'') =
         filteredProducts codeUnitCompare fuse' [rose, oud] DEFAULT_FILTERS ds')"
    using conjunct2 [OF at_R] short by (rule mp)
  have b: "fuzzySearch exactName [rose, oud] (str ''R'') [rose, oud] = [rose, oud]"
    using bc by (rule conjunct1)
  have "length ([] :: jsstring) < 2 \<longrightarrow>
      filteredProducts codeUnitCompare exactName [rose, oud] DEFAULT_FILTERS (str ''R'') =
      filteredProducts codeUnitCompare exactName [rose, oud] DEFAULT_FILTERS []"
    using conjunct2 [OF bc] by blast
  then have c: "filteredProducts codeUnitCompare exactName [rose, oud] DEFAULT_FILTERS (str ''R'') =
     filteredProducts codeUnitCompare exactName [rose, oud] DEFAULT_FILTERS []"
    by simp
  from out a b c show ?thesis by (intro conjI)
qed

section \<open>The name sorts\<close>

text \<open>
  Whatever the comparator, two products on whose names it returns 0 stay in their input
  order under both name sorts.
\<close>

lemma name_sorts_keep_ties:
  assumes "lc (name a) (name b) = 0" and "lc (name b) (name a) = 0"
  shows "sortProducts lc [a, b] NameAsc = [a, b] \<and> sortProducts lc [a, b] NameDesc = [a, b]"
  using assms by (simp add: sortProducts_def array_sort_def)

lemma canonCompare_cafes:
  "canonCompare (name cafe_composed) (name cafe_decomposed) = 0 \<and>
   canonCompare (name cafe_decomposed) (name cafe_composed) = 0"
  by (simp add: canonCompare_def cafe_composed_def cafe_decomposed_def)

lemma name_asc_cafes:
  "sortProducts canonCompare [cafe_composed, cafe_decomposed] NameAsc =
     [cafe_composed, cafe_decomposed]"
  using name_sorts_keep_ties canonCompare_cafes by blast

lemma name_desc_cafes:
  "sortProducts canonCompare [cafe_composed, cafe_decomposed] NameDesc =
     [cafe_composed, cafe_decomposed]"
  using name_sorts_keep_ties canonCompare_cafes by blast

text \<open>
  C5, as the code has it. \<open>name-desc\<close> calls the same \<open>localeCompare\<close> with its arguments
  exchanged. When \<open>localeCompare\<close> is a consistent comparator, the names of the list are
  pairwise distinct, and \<open>localeCompare\<close> returns 0 on no two different names of the list,
  the list sorted with \<open>name-desc\<close> is the reverse of the list sorted with \<open>name-asc\<close>.
\<close>

theorem name_desc_is_reverse:
  assumes lc: "consistent lc"
    and dist: "distinct (map name ps)"
    and ties: "\<forall>a\<in>set ps. \<forall>b\<in>set ps. lc (name a) (name b) = 0 \<longrightarrow> name a = name b"
  shows "sortProducts lc ps NameDesc = rev (sortProducts lc ps NameAsc)"
proof -
  let ?asc = "array_sort (\<lambda>a b. lc (name a) (name b)) ps"
  let ?desc = "array_sort (\<lambda>a b. lc (name b) (name a)) ps"
  let ?R = "\<lambda>a b. lc (name a) (name b) \<le> 0"
  have asc: "sorted_wrt ?R ?asc"
    by (rule sorted_array_sort) (use lc consistent_total consistent_trans in blast)+
  have "sorted_wrt (\<lambda>a b. lc (name b) (name a) \<le> 0) ?desc"
    by (rule sorted_array_sort) (use lc consistent_total consistent_trans in blast)+
  then have desc: "sorted_wrt ?R (rev ?desc)"
    by (simp add: sorted_wrt_rev)
  have ms: "mset (rev ?desc) = mset ?asc"
    by (simp add: mset_array_sort)
  have "rev ?desc = ?asc"
  proof (rule sorted_wrt_unique [OF desc asc ms])
    fix a b
    assume "a \<in> set (rev ?desc)" "b \<in> set (rev ?desc)"
    then have a: "a \<in> set ps" and b: "b \<in> set ps" by (simp_all add: set_array_sort)
    assume "?R a b" "?R b a"
    then have "lc (name a) (name b) = 0" using lc by (rule consistent_tie [rotated])
    then have "name a = name b" using ties a b by blast
    then show "a = b" using dist a b by (meson distinct_map inj_onD)
  qed
  then have "?desc = rev ?asc" by (metis rev_rev_ident)
  then show ?thesis by (simp add: sortProducts_def)
qed

text \<open>
  The theorem at three products named Rose, Oud and Sample, compared by code units:
  \<open>name-desc\<close> gives Sample, Rose, Oud.
\<close>

theorem name_desc_is_reverse_witness:
  "consistent codeUnitCompare \<and> distinct (map name [rose, oud, sample]) \<and>
   sortProducts codeUnitCompare [rose, oud, sample] NameDesc =
     rev (sortProducts codeUnitCompare [rose, oud, sample] NameAsc) \<and>
   sortProducts codeUnitCompare [rose, oud, sample] NameDesc = [sample, rose, oud]"
proof -
  have d: "distinct (map name [rose, oud, sample])"
    by (simp add: rose_def oud_def sample_def str_def)
  have t: "\<forall>a\<in>set [rose, oud, sample]. \<forall>b\<in>set [rose, oud, sample].
      codeUnitCompare (name a) (name b) = 0 \<longrightarrow> name a = name b"
    by (simp add: rose_def oud_def sample_def str_def)
  have e: "sortProducts codeUnitCompare [rose, oud, sample] NameDesc = [sample, rose, oud]"
    by (simp add: sortProducts_def array_sort_def rose_def oud_def sample_def str_def)
  show ?thesis
    using name_desc_is_reverse [OF consistent_codeUnitCompare d t] d e
      consistent_codeUnitCompare by simp
qed

text \<open>
  C5 as the specification states it, for names that are pairwise distinct, fails. The
  two spellings of the name of \<open>cafe_composed\<close> and \<open>cafe_decomposed\<close> are different
  strings that are canonically equivalent, so \<open>localeCompare\<close> returns 0 on them; the
  stable sort then leaves the two products in their input order under both options, and
  \<open>name-desc\<close> is not the reverse of \<open>name-asc\<close>.
\<close>

theorem name_desc_counterexample:
  "consistent canonCompare \<and>
   distinct (map name [cafe_composed, cafe_decomposed]) \<and>
   canonCompare (name cafe_composed) (name cafe_decomposed) = 0 \<and>
   sortProducts canonCompare [cafe_composed, cafe_decomposed] NameDesc \<noteq>
     rev (sortProducts canonCompare [cafe_composed, cafe_decomposed] NameAsc)"
  unfolding name_asc_cafes name_desc_cafes
  by (simp add: consistent_canonCompare canonCompare_def cafe_composed_def cafe_decomposed_def
      rose_def)

section \<open>The filter state and its operations\<close>

lemma distinct_perform:
  "distinct (types prev) \<and> distinct (sizes prev) \<Longrightarrow>
   distinct (types (perform prev c)) \<and> distinct (sizes (perform prev c))"
  by (cases c)
    (simp_all add: setGender_def setSearch_def setBrand_def setPriceRange_def toggleType_def
      toggleSize_def setSort_def clearFilters_def DEFAULT_FILTERS_def)

lemma distinct_foldl_perform:
  "distinct (types prev) \<and> distinct (sizes prev) \<Longrightarrow>
   distinct (types (foldl perform prev calls)) \<and> distinct (sizes (foldl perform prev calls))"
proof (induction calls arbitrary: prev)
  case Nil
  then show ?case by simp
next
  case (Cons c calls)
  have "distinct (types (perform prev c)) \<and> distinct (sizes (perform prev c))"
    using Cons.prems by (rule distinct_perform)
  then show ?case using Cons.IH by simp
qed

text \<open>
  C6. For every filter state and every value, \<open>toggleType\<close> twice returns \<open>types\<close> to
  its set of values, and \<open>toggleSize\<close> does the same for \<open>sizes\<close>; a toggle removes the
  value if it is present and appends it if it is absent; and after every sequence of
  calls of the operations on a new session, \<open>types\<close> and \<open>sizes\<close> have no duplicate.
\<close>

theorem toggle_involution:
  "set (types (toggleType t (toggleType t prev))) = set (types prev) \<and>
   set (sizes (toggleSize s (toggleSize s prev))) = set (sizes prev) \<and>
   types (toggleType t prev) =
     (if t \<in> set (types prev) then removeAll t (types prev) else types prev @ [t]) \<and>
   sizes (toggleSize s prev) =
     (if s \<in> set (sizes prev) then removeAll s (sizes prev) else sizes prev @ [s]) \<and>
   distinct (types (filtersAfter calls)) \<and> distinct (sizes (filtersAfter calls))"
proof -
  have f: "\<And>x xs. filter (\<lambda>u. u \<noteq> x) xs = removeAll (x::jsstring) xs"
    by (simp add: removeAll_filter_not_eq) metis
  have "distinct (types (filtersAfter calls)) \<and> distinct (sizes (filtersAfter calls))"
    unfolding filtersAfter_def
    by (rule distinct_foldl_perform) (simp add: DEFAULT_FILTERS_def)
  moreover have "set (types (toggleType t (toggleType t prev))) = set (types prev)"
    by (auto simp: toggleType_def)
  moreover have "set (sizes (toggleSize s (toggleSize s prev))) = set (sizes prev)"
    by (auto simp: toggleSize_def)
  ultimately show ?thesis
    by (simp add: toggleType_def toggleSize_def f)
qed

text \<open>
  The theorem at the types EDP and EDT: toggling EDP twice in a state that holds both
  gives the same set in another order, and after the calls EDP, EDT, EDP on a new
  session EDT alone is left.
\<close>

theorem toggle_involution_witness:
  "types (toggleType (str ''EDP'') (toggleType (str ''EDP'')
      (DEFAULT_FILTERS\<lparr>types := [str ''EDP'', str ''EDT'']\<rparr>))) = [str ''EDT'', str ''EDP''] \<and>
   set (types (toggleType (str ''EDP'') (toggleType (str ''EDP'')
      (DEFAULT_FILTERS\<lparr>types := [str ''EDP'', str ''EDT'']\<rparr>)))) = {str ''EDP'', str ''EDT''} \<and>
   types (filtersAfter [ToggleType (str ''EDP''), ToggleType (str ''EDT''),
      ToggleType (str ''EDP'')]) = [str ''EDT''] \<and>
   distinct (types (filtersAfter [ToggleType (str ''EDP''), ToggleType (str ''EDT''),
      ToggleType (str ''EDP'')]))"
proof -
  note th = toggle_involution [of "str ''EDP''"
      "DEFAULT_FILTERS\<lparr>types := [str ''EDP'', str ''EDT'']\<rparr>" "str ''100ml''"
      "[ToggleType (str ''EDP''), ToggleType (str ''EDT''), ToggleType (str ''EDP'')]"]
  have a: "types (toggleType (str ''EDP'') (toggleType (str ''EDP'')
      (DEFAULT_FILTERS\<lparr>types := [str ''EDP'', str ''EDT'']\<rparr>))) = [str ''EDT'', str ''EDP'']"
    by (simp add: toggleType_def str_def)
  have "set (types (toggleType (str ''EDP'') (toggleType (str ''EDP'')
      (DEFAULT_FILTERS\<lparr>types := [str ''EDP'', str ''EDT'']\<rparr>)))) =
      set (types (DEFAULT_FILTERS\<lparr>types := [str ''EDP'', str ''EDT'']\<rparr>))"
    using th by (rule conjunct1)
  then have b: "set (types (toggleType (str ''EDP'') (toggleType (str ''EDP'')
      (DEFAULT_FILTERS\<lparr>types := [str ''EDP'', str ''EDT'']\<rparr>)))) = {str ''EDP'', str ''EDT''}"
    by simp
  have c: "types (filtersAfter [ToggleType (str ''EDP''), ToggleType (str ''EDT''),
      ToggleType (str ''EDP'')]) = [str ''EDT'']"
    by (simp add: filtersAfter_def toggleType_def DEFAULT_FILTERS_def str_def)
  have d: "distinct (types (filtersAfter [ToggleType (str ''EDP''), ToggleType (str ''EDT''),
      ToggleType (str ''EDP'')]))"
    using th by simp
  from a b c d show ?thesis by (intro conjI)
qed

lemma toggled_differs:
  "(if x \<in> set xs then filter (\<lambda>u. u \<noteq> x) xs else xs @ [x]) \<noteq> xs"
proof (cases "x \<in> set xs")
  case True
  then have "set (filter (\<lambda>u. u \<noteq> x) xs) \<noteq> set xs" by auto
  then have "filter (\<lambda>u. u \<noteq> x) xs \<noteq> xs" by metis
  with True show ?thesis by simp
next
  case False
  then show ?thesis by simp
qed

text \<open>
  C7. For every prior state and every argument, each of the seven operations replaces
  its field and leaves the other six fields as they were. \<open>setGender\<close>, \<open>setSearch\<close>,
  \<open>setBrand\<close>, \<open>setPriceRange\<close> and \<open>setSort\<close> give their field the argument.
  \<open>toggleType\<close> gives \<open>types\<close> the list without the value if the value was in it, and
  the list with the value appended if it was not, so that the value is in the new list
  exactly when it was not in the old one and the new list is never the old one;
  \<open>toggleSize\<close> does the same to \<open>sizes\<close>.
\<close>

theorem mutations_frame:
  "gender (setGender g prev) = g \<and>
   (let next = setGender g prev in
      (search next, brand next, priceRange next, types next, sizes next, sort_f next) =
      (search prev, brand prev, priceRange prev, types prev, sizes prev, sort_f prev)) \<and>
   search (setSearch s prev) = s \<and>
   (let next = setSearch s prev in
      (gender next, brand next, priceRange next, types next, sizes next, sort_f next) =
      (gender prev, brand prev, priceRange prev, types prev, sizes prev, sort_f prev)) \<and>
   brand (setBrand b prev) = b \<and>
   (let next = setBrand b prev in
      (gender next, search next, priceRange next, types next, sizes next, sort_f next) =
      (gender prev, search prev, priceRange prev, types prev, sizes prev, sort_f prev)) \<and>
   priceRange (setPriceRange r prev) = r \<and>
   (let next = setPriceRange r prev in
      (gender next, search next, brand next, types next, sizes next, sort_f next) =
      (gender prev, search prev, brand prev, types prev, sizes prev, sort_f prev)) \<and>
   sort_f (setSort so prev) = so \<and>
   (let next = setSort so prev in
      (gender next, search next, brand next, priceRange next, types next, sizes next) =
      (gender prev, search prev, brand prev, priceRange prev, types prev, sizes prev)) \<and>
   types (toggleType t prev) =
     (if t \<in> set (types prev) then filter (\<lambda>u. u \<noteq> t) (types prev) else types prev @ [t]) \<and>
   (t \<in> set (types (toggleType t prev))) = (t \<notin> set (types prev)) \<and>
   types (toggleType t prev) \<noteq> types prev \<and>
   (let next = toggleType t prev in
      (gender next, search next, brand next, priceRange next, sizes next, sort_f next) =
      (gender prev, search prev, brand prev, priceRange prev, sizes prev, sort_f prev)) \<and>
   sizes (toggleSize z prev) =
     (if z \<in> set (sizes prev) then filter (\<lambda>u. u \<noteq> z) (sizes prev) else sizes prev @ [z]) \<and>
   (z \<in> set (sizes (toggleSize z prev))) = (z \<notin> set (sizes prev)) \<and>
   sizes (toggleSize z prev) \<noteq> sizes prev \<and>
   (let next = toggleSize z prev in
      (gender next, search next, brand next, priceRange next, types next, sort_f next) =
      (gender prev, search prev, brand prev, priceRange prev, types prev, sort_f prev))"
proof -
  have setters:
    "gender (setGender g prev) = g \<and>
     (let next = setGender g prev in
        (search next, brand next, priceRange next, types next, sizes next, sort_f next) =
        (search prev, brand prev, priceRange prev, types prev, sizes prev, sort_f prev)) \<and>
     search (setSearch s prev) = s \<and>
     (let next = setSearch s prev in
        (gender next, brand next, priceRange next, types next, sizes next, sort_f next) =
        (gender prev, brand prev, priceRange prev, types prev, sizes prev, sort_f prev)) \<and>
     brand (setBrand b prev) = b \<and>
     (let next = setBrand b prev in
        (gender next, search next, priceRange next, types next, sizes next, sort_f next) =
        (gender prev, search prev, priceRange prev, types prev, sizes prev, sort_f prev)) \<and>
     priceRange (setPriceRange r prev) = r \<and>
     (let next = setPriceRange r prev in
        (gender next, search next, brand next, types next, sizes next, sort_f next) =
        (gender prev, search prev, brand prev, types prev, sizes prev, sort_f prev)) \<and>
     sort_f (setSort so prev) = so \<and>
     (let next = setSort so prev in
        (gender next, search next, brand next, priceRange next, types next, sizes next) =
        (gender prev, search prev, brand prev, priceRange prev, types prev, sizes prev))"
    by (simp add: setGender_def setSearch_def setBrand_def setPriceRange_def setSort_def)
  have type_value: "types (toggleType t prev) =
      (if t \<in> set (types prev) then filter (\<lambda>u. u \<noteq> t) (types prev) else types prev @ [t])"
    by (simp add: toggleType_def)
  have type_member: "(t \<in> set (types (toggleType t prev))) = (t \<notin> set (types prev))"
    unfolding type_value by simp
  have type_differs: "types (toggleType t prev) \<noteq> types prev"
    unfolding type_value by (rule toggled_differs)
  have type_frame: "let next = toggleType t prev in
      (gender next, search next, brand next, priceRange next, sizes next, sort_f next) =
      (gender prev, search prev, brand prev, priceRange prev, sizes prev, sort_f prev)"
    by (simp add: toggleType_def)
  have size_value: "sizes (toggleSize z prev) =
      (if z \<in> set (sizes prev) then filter (\<lambda>u. u \<noteq> z) (sizes prev) else sizes prev @ [z])"
    by (simp add: toggleSize_def)
  have size_member: "(z \<in> set (sizes (toggleSize z prev))) = (z \<notin> set (sizes prev))"
    unfolding size_value by simp
  have size_differs: "sizes (toggleSize z prev) \<noteq> sizes prev"
    unfolding size_value by (rule toggled_differs)
  have size_frame: "let next = toggleSize z prev in
      (gender next, search next, brand next, priceRange next, types next, sort_f next) =
      (gender prev, search prev, brand prev, priceRange prev, types prev, sort_f prev)"
    by (simp add: toggleSize_def)
  from setters type_value type_member type_differs type_frame
    size_value size_member size_differs size_frame
  show ?thesis by (intro conjI) (elim conjE, assumption)+
qed

text \<open>
  The theorem at the state \<open>chosen\<close>, once for each operation. The setters store their
  argument; toggling the type EDT, which is absent, appends it, and toggling EDP, which
  is present, removes it, and likewise for the sizes 50ml and 100ml; the brand, the
  price range and the list that a toggle does not name stay.
\<close>

theorem mutations_frame_witness:
  "gender (setGender (Only Men) chosen) = Only Men \<and>
   brand (setGender (Only Men) chosen) = Some (str ''A'') \<and>
   search (setSearch (str ''ro'') chosen) = str ''ro'' \<and>
   types (setSearch (str ''ro'') chosen) = [str ''EDP''] \<and>
   brand (setBrand None chosen) = None \<and>
   priceRange (setBrand None chosen) = (10, 500) \<and>
   priceRange (setPriceRange (0, 40) chosen) = (0, 40) \<and>
   sizes (setPriceRange (0, 40) chosen) = [str ''100ml''] \<and>
   sort_f (setSort PriceAsc chosen) = PriceAsc \<and>
   brand (setSort PriceAsc chosen) = Some (str ''A'') \<and>
   types (toggleType (str ''EDT'') chosen) = [str ''EDP'', str ''EDT''] \<and>
   types (toggleType (str ''EDP'') chosen) = [] \<and>
   sizes (toggleType (str ''EDT'') chosen) = [str ''100ml''] \<and>
   priceRange (toggleType (str ''EDP'') chosen) = (10, 500) \<and>
   sizes (toggleSize (str ''50ml'') chosen) = [str ''100ml'', str ''50ml''] \<and>
   sizes (toggleSize (str ''100ml'') chosen) = [] \<and>
   types (toggleSize (str ''50ml'') chosen) = [str ''EDP''] \<and>
   brand (toggleSize (str ''100ml'') chosen) = Some (str ''A'')"
proof -
  have st: "gender chosen = AllGenders" "search chosen = []" "brand chosen = Some (str ''A'')"
    "priceRange chosen = (10, 500)" "types chosen = [str ''EDP'']"
    "sizes chosen = [str ''100ml'']" "sort_f chosen = BrandAsc"
    by (simp_all add: chosen_def DEFAULT_FILTERS_def)
  note absent = mutations_frame [where prev = chosen and g = "Only Men" and s = "str ''ro''"
      and b = None and r = "(0, 40)" and so = PriceAsc and t = "str ''EDT''"
      and z = "str ''50ml''"]
  note present = mutations_frame [where prev = chosen and g = "Only Men" and s = "str ''ro''"
      and b = None and r = "(0, 40)" and so = PriceAsc and t = "str ''EDP''"
      and z = "str ''100ml''"]
  have ne: "str ''EDT'' \<noteq> str ''EDP''" "str ''50ml'' \<noteq> str ''100ml''"
    by (simp_all add: str_def)
  from absent present show ?thesis
    unfolding Let_def st using ne by simp
qed

section \<open>The debounce gate\<close>

lemma run_append: "run s (es @ fs) = run (run s es) fs"
  by (simp add: run_def)

lemma typing_append: "typing (b @ c) = typing b @ typing c"
  by (induction b) auto

lemma changing_snoc: "changing p (vs @ [v]) \<longleftrightarrow> changing p vs \<and> v \<noteq> last (p # vs)"
  by (induction vs arbitrary: p) auto

lemma search_setSearch: "search (setSearch v f) = v"
  by (simp add: setSearch_def)

text \<open>While the texts change less than 200 ms apart, nothing reaches the pipeline.\<close>

lemma burst_keeps:
  "\<forall>(v, d)\<in>set b. d < 200 \<Longrightarrow> changing (search (filters_s s)) (map fst b) \<Longrightarrow>
   debounced (run s (typing b)) = debounced s \<and>
   recomputations (run s (typing b)) = recomputations s \<and>
   search (filters_s (run s (typing b))) = last (search (filters_s s) # map fst b)"
proof (induction b arbitrary: s)
  case Nil
  then show ?case by (simp add: run_def)
next
  case (Cons p b)
  obtain v d where p: "p = (v, d)" by (cases p)
  let ?s = "s\<lparr> filters_s := setSearch v (filters_s s), timer := Some (200 - d, v) \<rparr>"
  have vd: "v \<noteq> search (filters_s s)" "d < 200" using Cons.prems p by auto
  have r: "run s (typing (p # b)) = run ?s (typing b)"
    using vd p by (simp add: run_def)
  have "debounced (run ?s (typing b)) = debounced ?s \<and>
   recomputations (run ?s (typing b)) = recomputations ?s \<and>
   search (filters_s (run ?s (typing b))) = last (search (filters_s ?s) # map fst b)"
    using Cons.prems p by (intro Cons.IH) (auto simp: search_setSearch)
  then show ?case unfolding r using p by (simp add: search_setSearch)
qed

lemma final_keystroke:
  assumes "v \<noteq> search (filters_s s)" "200 \<le> w"
  shows "run s [CallSetSearch v, Elapse w] =
     s\<lparr> filters_s := setSearch v (filters_s s), debounced := v, timer := None,
        recomputations := recomputations s + (if v \<noteq> debounced s then 1 else 0) \<rparr>"
  using assms by (simp add: run_def)

lemma no_timer_no_change: "timer s = None \<Longrightarrow> run s (map Elapse ds) = s"
  by (induction ds) (simp_all add: run_def)

text \<open>
  C8, as the model of the gate and the pipeline's dependency array have it. When
  \<open>setSearch\<close> is called several times, each call changing the text and each less than
  200 ms after the one before, and 200 ms then pass, the debounced text is the last text
  set, no timer is pending, and the pipeline has been recomputed once if the last text
  differs from the text that was debounced before, and not at all if it is the same.
  The pipeline does not read the search field of the filter state, only the debounced
  text, and it reads the other fields from the filter state. After teardown no timer is
  pending, and the passing of time changes nothing.
\<close>

theorem burst_then_quiet:
  assumes gaps: "\<forall>(v, d)\<in>set b. d < 200"
    and chg: "changing (search (filters_s s)) (map fst b @ [v])"
    and quiet: "200 \<le> w"
  shows "debounced (run s (typing (b @ [(v, w)]))) = v \<and>
         timer (run s (typing (b @ [(v, w)]))) = None \<and>
         recomputations (run s (typing (b @ [(v, w)]))) =
           recomputations s + (if v \<noteq> debounced s then 1 else 0) \<and>
         filteredProducts lc fuse allProducts (setSearch v filters) ds =
           filteredProducts lc fuse allProducts filters ds \<and>
         timer (step s Teardown) = None \<and>
         run (step s Teardown) (map Elapse waits) = step s Teardown"
proof -
  let ?s = "run s (typing b)"
  have chg_b: "changing (search (filters_s s)) (map fst b)"
    and chg_v: "v \<noteq> last (search (filters_s s) # map fst b)"
    using chg by (simp_all add: changing_snoc)
  have keep: "debounced ?s = debounced s" "recomputations ?s = recomputations s"
    "search (filters_s ?s) = last (search (filters_s s) # map fst b)"
    using burst_keeps [OF gaps chg_b] by simp_all
  have "run s (typing (b @ [(v, w)])) = run ?s [CallSetSearch v, Elapse w]"
    by (simp add: typing_append run_append)
  also have "\<dots> = ?s\<lparr> filters_s := setSearch v (filters_s ?s), debounced := v, timer := None,
        recomputations := recomputations ?s + (if v \<noteq> debounced ?s then 1 else 0) \<rparr>"
    using chg_v quiet keep(3) by (intro final_keystroke) simp_all
  finally have burst: "debounced (run s (typing (b @ [(v, w)]))) = v \<and>
         timer (run s (typing (b @ [(v, w)]))) = None \<and>
         recomputations (run s (typing (b @ [(v, w)]))) =
           recomputations s + (if v \<noteq> debounced s then 1 else 0)"
    using keep by simp
  have down: "timer (step s Teardown) = None" by simp
  then have "run (step s Teardown) (map Elapse waits) = step s Teardown"
    by (rule no_timer_no_change)
  with burst down filteredProducts_setSearch show ?thesis by blast
qed

text \<open>
  The theorem at the specification's scenario: on a new session the texts "a", "ab" and
  "abc" are set 50 ms and 60 ms apart, and 200 ms pass. The debounced text is "abc" and
  the pipeline has been recomputed once.
\<close>

theorem burst_then_quiet_witness:
  "debounced (run mount (typing [(str ''a'', 50), (str ''ab'', 60), (str ''abc'', 200)])) =
     str ''abc'' \<and>
   timer (run mount (typing [(str ''a'', 50), (str ''ab'', 60), (str ''abc'', 200)])) = None \<and>
   recomputations (run mount (typing [(str ''a'', 50), (str ''ab'', 60), (str ''abc'', 200)])) = 1"
proof -
  have gaps: "\<forall>(v, d)\<in>set [(str ''a'', 50), (str ''ab'', 60 :: nat)]. d < 200" by simp
  have chg: "changing (search (filters_s mount))
      (map fst [(str ''a'', 50 :: nat), (str ''ab'', 60)] @ [str ''abc''])"
    by (simp add: mount_def DEFAULT_FILTERS_def str_def)
  have quiet: "(200 :: nat) \<le> 200" by simp
  have ne: "str ''abc'' \<noteq> debounced mount"
    by (simp add: mount_def DEFAULT_FILTERS_def str_def)
  have r0: "recomputations mount = 0" by (simp add: mount_def)
  from burst_then_quiet [OF gaps chg quiet] ne r0 show ?thesis by simp
qed

text \<open>
  C8 as the specification states it, exactly one recomputation after every burst, fails.
  On a new session, whose debounced text is empty, the text "a" is set and 50 ms later
  the empty text again; 200 ms later the timer commits the empty text, which is the
  debounced text already, and the pipeline is not recomputed.
\<close>

theorem burst_then_quiet_counterexample:
  "debounced (run mount (typing [(str ''a'', 50), ([], 200)])) = [] \<and>
   recomputations (run mount (typing [(str ''a'', 50), ([], 200)])) = 0"
  by (simp add: run_def mount_def setSearch_def DEFAULT_FILTERS_def str_def)

section \<open>An inverted price range\<close>

lemma priceRangeFilter_inverted:
  "hi < lo \<Longrightarrow> priceRangeFilter (setPriceRange (lo, hi) filters) results =
     filter (\<lambda>p. price p = None) results"
  unfolding priceRangeFilter_def setPriceRange_def
  by (rule filter_cong) (auto split: option.splits)

text \<open>
  C9. For every price range \<open>[lo, hi]\<close> with \<open>lo > hi\<close>, \<open>setPriceRange\<close> stores the
  range as it is given, and the output is the sorted list of the products that reach the
  price step and have a null price: every product in it has a null price.
\<close>

theorem inverted_range:
  assumes "hi < lo"
  shows "priceRange (setPriceRange (lo, hi) filters) = (lo, hi) \<and>
    filteredProducts lc fuse allProducts (setPriceRange (lo, hi) filters) ds =
      sortProducts lc (filter (\<lambda>p. price p = None) (beforePrice fuse allProducts filters ds))
        (sort_f filters) \<and>
    (\<forall>p\<in>set (filteredProducts lc fuse allProducts (setPriceRange (lo, hi) filters) ds).
       price p = None)"
proof -
  have s: "sort_f (setPriceRange (lo, hi) filters) = sort_f filters"
    and r: "priceRange (setPriceRange (lo, hi) filters) = (lo, hi)"
    by (simp_all add: setPriceRange_def)
  have eq: "filteredProducts lc fuse allProducts (setPriceRange (lo, hi) filters) ds =
      sortProducts lc (filter (\<lambda>p. price p = None) (beforePrice fuse allProducts filters ds))
        (sort_f filters)"
    using assms
    by (simp add: filteredProducts_def beforePrice_setPriceRange priceRangeFilter_inverted s)
  show ?thesis
    unfolding eq by (simp add: set_sortProducts r)
qed

text \<open>
  The theorem at the repository of the scenario and the range 100 to 50: the output is
  \<open>oud\<close> alone, the product without a price.
\<close>

theorem inverted_range_witness:
  "priceRange (setPriceRange (100, 50) DEFAULT_FILTERS) = (100, 50) \<and>
   filteredProducts codeUnitCompare exactName [rose, oud]
     (setPriceRange (100, 50) DEFAULT_FILTERS) [] = [oud]"
proof -
  have lt: "(50 :: number) < 100" by simp
  note th = inverted_range [OF lt, of DEFAULT_FILTERS codeUnitCompare exactName "[rose, oud]" "[]"]
  have r: "priceRange (setPriceRange (100, 50) DEFAULT_FILTERS) = (100, 50)"
    using th by (rule conjunct1)
  have "filteredProducts codeUnitCompare exactName [rose, oud]
      (setPriceRange (100, 50) DEFAULT_FILTERS) [] =
    sortProducts codeUnitCompare
      (filter (\<lambda>p. price p = None) (beforePrice exactName [rose, oud] DEFAULT_FILTERS []))
      (sort_f DEFAULT_FILTERS)"
    using conjunct2 [OF th] by (rule conjunct1)
  also have "filter (\<lambda>p. price p = None) (beforePrice exactName [rose, oud] DEFAULT_FILTERS [])
      = [oud]"
    unfolding beforePrice_scenario by (simp add: rose_def oud_def)
  finally have e: "filteredProducts codeUnitCompare exactName [rose, oud]
      (setPriceRange (100, 50) DEFAULT_FILTERS) [] = [oud]"
    by (simp add: sort_f_default brand_asc_single)
  from r e show ?thesis by (intro conjI)
qed

section \<open>The output is a rearrangement of a part of the repository\<close>

lemma sortProducts_heap_eq:
  assumes "arrays h products = Some ps"
  shows "sortProducts_heap lc h products so =
    Some (h\<lparr>arrays := (arrays h)(next_ref h \<mapsto> sortProducts lc ps so),
             next_ref := Suc (next_ref h)\<rparr>, next_ref h)"
  using assms
  by (cases so) (simp_all add: sortProducts_heap_def spread_def sort_in_place_def sortProducts_def)

text \<open>
  C10. For every repository and every filter state, the output is a permutation of a
  subsequence of the repository, so no product occurs in it more often than in the
  repository; \<open>sortProducts\<close> returns a permutation of its input; and on the heap, given
  an array allocated earlier, it returns a new array that holds the sorted list, and
  leaves the array it was given, and every other array, as they were.
\<close>

theorem pipeline_permutation:
  "(\<exists>ys. subseq ys allProducts \<and>
          mset (filteredProducts lc fuse allProducts filters ds) = mset ys) \<and>
   mset (filteredProducts lc fuse allProducts filters ds) \<subseteq># mset allProducts \<and>
   mset (sortProducts lc ps so) = mset ps \<and>
   (arrays h products = Some ps \<longrightarrow> products < next_ref h \<longrightarrow>
      (\<exists>h' sorted. sortProducts_heap lc h products so = Some (h', sorted) \<and>
         sorted \<noteq> products \<and>
         arrays h' products = Some ps \<and>
         arrays h' sorted = Some (sortProducts lc ps so) \<and>
         (\<forall>r. r \<noteq> sorted \<longrightarrow> arrays h' r = arrays h r)))"
proof (intro conjI impI)
  show "\<exists>ys. subseq ys allProducts \<and>
          mset (filteredProducts lc fuse allProducts filters ds) = mset ys"
    using subseq_narrowed mset_filteredProducts by blast
  show "mset (filteredProducts lc fuse allProducts filters ds) \<subseteq># mset allProducts"
    unfolding mset_filteredProducts by (rule subseq_mset) (rule subseq_narrowed)
  show "mset (sortProducts lc ps so) = mset ps" by (rule mset_sortProducts)
next
  assume a: "arrays h products = Some ps" and b: "products < next_ref h"
  show "\<exists>h' sorted. sortProducts_heap lc h products so = Some (h', sorted) \<and>
         sorted \<noteq> products \<and>
         arrays h' products = Some ps \<and>
         arrays h' sorted = Some (sortProducts lc ps so) \<and>
         (\<forall>r. r \<noteq> sorted \<longrightarrow> arrays h' r = arrays h r)"
    unfolding sortProducts_heap_eq [OF a] using a b by auto
qed

text \<open>
  The theorem at the repository \<open>oud\<close>, \<open>rose\<close> and a heap that holds it at reference 0:
  the output of the pipeline is within the repository, and \<open>sortProducts\<close> returns
  \<open>rose\<close>, \<open>oud\<close> in a new array while the array at 0 still holds \<open>oud\<close>, \<open>rose\<close>.
\<close>

theorem pipeline_permutation_witness:
  "mset (filteredProducts codeUnitCompare exactName [oud, rose] DEFAULT_FILTERS [])
     \<subseteq># mset [oud, rose] \<and>
   (\<exists>h' sorted.
      sortProducts_heap codeUnitCompare
        \<lparr>arrays = Map.empty(0 \<mapsto> [oud, rose]), next_ref = 1\<rparr> 0 BrandAsc = Some (h', sorted) \<and>
      sorted \<noteq> 0 \<and> arrays h' 0 = Some [oud, rose] \<and> arrays h' sorted = Some [rose, oud])"
proof -
  let ?h = "\<lparr>arrays = Map.empty(0 \<mapsto> [oud, rose]), next_ref = 1\<rparr>"
  have e: "sortProducts codeUnitCompare [oud, rose] BrandAsc = [rose, oud]"
    by (simp add: sortProducts_def array_sort_def or_else_def oud_def rose_def str_def)
  have a: "arrays ?h 0 = Some [oud, rose]" and b: "0 < next_ref ?h" by simp_all
  from pipeline_permutation [of "[oud, rose]" codeUnitCompare exactName DEFAULT_FILTERS "[]"
      "[oud, rose]" BrandAsc ?h 0] a b
  show ?thesis unfolding e by blast
qed

end
